theory Spec2Isabelle
  imports Main
begin

section \<open>Strings and arrays of JavaScript\<close>

text \<open>
  A JavaScript string is modelled as a \<open>string\<close>: one \<open>char\<close> per code unit, for the code
  units below 256. \<open>split_on c s\<close> is \<open>s.split(c)\<close> for a separator of one character: the
  empty string splits into one empty part, and two separators in a row enclose an empty part.
\<close>

fun split_on :: "char \<Rightarrow> string \<Rightarrow> string list" where
  "split_on c [] = [[]]"
| "split_on c (x # xs) =
     (if x = c then [] # split_on c xs
      else (case split_on c xs of [] \<Rightarrow> [[x]] | p # ps \<Rightarrow> (x # p) # ps))"

text \<open>\<open>join_strs sep xs\<close> is \<open>xs.join(sep)\<close> for an array of strings.\<close>

fun join_strs :: "string \<Rightarrow> string list \<Rightarrow> string" where
  "join_strs sep [] = []"
| "join_strs sep [x] = x"
| "join_strs sep (x # y # ys) = x @ sep @ join_strs sep (y # ys)"

text \<open>The white space of \<open>\s\<close> and of \<open>parseInt\<close>, among the code units below 256.\<close>

definition is_space :: "char \<Rightarrow> bool" where
  "is_space c = (c \<in> set [CHR 0x09, CHR 0x0A, CHR 0x0B, CHR 0x0C, CHR 0x0D, CHR '' '', CHR 0xA0])"

definition is_digit :: "char \<Rightarrow> bool" where
  "is_digit c = (c \<in> set ''0123456789'')"

text \<open>
  \<open>parseInt(s)\<close> with no radix: leading white space is skipped, a sign is read, the prefix
  \<open>0x\<close> or \<open>0X\<close> selects radix 16, and the longest prefix of digits of the radix is the
  number; no digit at all gives \<open>NaN\<close>, which is \<open>None\<close> here. The number is kept as an exact
  integer: the source only compares it with bounds below 60, and rounding a long digit string
  to a double does not change such a comparison.
\<close>

definition digit_of :: "char \<Rightarrow> nat option" where
  "digit_of c =
     (let n = (of_char c :: nat) in
      if 48 \<le> n \<and> n \<le> 57 then Some (n - 48)
      else if 97 \<le> n \<and> n \<le> 122 then Some (n - 87)
      else if 65 \<le> n \<and> n \<le> 90 then Some (n - 55)
      else None)"

definition radix_digit :: "nat \<Rightarrow> char \<Rightarrow> bool" where
  "radix_digit r c = (case digit_of c of None \<Rightarrow> False | Some d \<Rightarrow> d < r)"

definition to_number :: "nat \<Rightarrow> string \<Rightarrow> nat" where
  "to_number r ds = foldl (\<lambda>acc c. acc * r + (case digit_of c of None \<Rightarrow> 0 | Some d \<Rightarrow> d)) 0 ds"

definition parseInt :: "string \<Rightarrow> int option" where
  "parseInt s =
     (let s1 = dropWhile is_space s;
          sign = (if take 1 s1 = ''-'' then - 1 else 1 :: int);
          s2 = (if take 1 s1 = ''-'' \<or> take 1 s1 = ''+'' then drop 1 s1 else s1);
          hex = (take 2 s2 = ''0x'' \<or> take 2 s2 = ''0X'');
          r = (if hex then 16 else 10);
          z = takeWhile (radix_digit r) (if hex then drop 2 s2 else s2)
      in if z = [] then None else Some (sign * int (to_number r z)))"

text \<open>\<open>a < b\<close> and \<open>a > b\<close> where \<open>a\<close> may be \<open>NaN\<close>: a comparison with \<open>NaN\<close> is false.\<close>

definition js_less :: "int option \<Rightarrow> int \<Rightarrow> bool" where
  "js_less a b = (case a of None \<Rightarrow> False | Some n \<Rightarrow> n < b)"

definition js_greater :: "int option \<Rightarrow> int \<Rightarrow> bool" where
  "js_greater a b = (case a of None \<Rightarrow> False | Some n \<Rightarrow> b < n)"

section \<open>Errors\<close>

text \<open>
  Every \<open>throw\<close> of the source is a value here. The source throws \<open>Error\<close> objects that
  differ in their message only; each message is one constructor, which keeps what the
  message cites (the field and the bound that was violated). \<open>TypeError\<close> is what the
  runtime throws when a property of \<open>undefined\<close> is read.
\<close>

datatype bound = Minimum int | Maximum int

datatype error =
    TooManyFields
  | InvalidField
  | InvalidCharacter
  | OutOfRange string bound
  | InvalidValueType
  | TypeError

text \<open>\<open>xs.forEach(f)\<close> (or a \<open>for\<close> loop over \<open>xs\<close>) with a body that may throw: the first
  exception ends the loop.\<close>

fun forEach :: "('a \<Rightarrow> error + unit) \<Rightarrow> 'a list \<Rightarrow> error + unit" where
  "forEach f [] = Inr ()"
| "forEach f (x # xs) = (case f x of Inl e \<Rightarrow> Inl e | Inr _ \<Rightarrow> forEach f xs)"

lemma forEach_cong [fundef_cong]:
  "xs = ys \<Longrightarrow> (\<And>x. x \<in> set ys \<Longrightarrow> f x = g x) \<Longrightarrow> forEach f xs = forEach g ys"
  by (induction ys arbitrary: xs) (auto split: sum.splits)

section \<open>CronValidator\<close>

definition MeasureOfTimeMap :: "(nat \<times> string) list" where
  "MeasureOfTimeMap =
     [(0, ''minute''), (1, ''hour''), (2, ''dayOfTheMonth''), (3, ''month''), (4, ''dayOfTheWeek'')]"

definition MeasureOfTimeValues :: "string list" where
  "MeasureOfTimeValues = map snd MeasureOfTimeMap"

record range =
  min :: int
  max :: int

definition validatorObj :: "(string \<times> range) list" where
  "validatorObj =
     [(''minute'', \<lparr>min = 0, max = 59\<rparr>),
      (''hour'', \<lparr>min = 0, max = 23\<rparr>),
      (''dayOfTheMonth'', \<lparr>min = 0, max = 30\<rparr>),
      (''month'', \<lparr>min = 1, max = 12\<rparr>),
      (''dayOfTheWeek'', \<lparr>min = 0, max = 6\<rparr>)]"

text \<open>\<open>validChars.test(value)\<close> for \<open>/[^0-9\*\,\s]/\<close>: some character of the value is
  neither a digit, nor \<open>*\<close>, nor a comma, nor white space.\<close>

definition validChars_test :: "string \<Rightarrow> bool" where
  "validChars_test value =
     list_ex (\<lambda>c. \<not> (is_digit c \<or> c = CHR ''*'' \<or> c = CHR '','' \<or> is_space c)) value"

lemma split_on_not_Nil [simp]: "split_on c v \<noteq> []"
  by (induction v) (auto split: list.splits)

lemma split_on_part_length:
  "p \<in> set (split_on c v) \<Longrightarrow> length p \<le> length v \<and> (c \<in> set v \<longrightarrow> length p < length v)"
proof (induction v arbitrary: p)
  case Nil
  then show ?case by simp
next
  case (Cons x xs)
  show ?case
  proof (cases "x = c")
    case True
    then have "p = [] \<or> p \<in> set (split_on c xs)" using Cons.prems by simp
    then show ?thesis
    proof
      assume "p = []" then show ?thesis by simp
    next
      assume "p \<in> set (split_on c xs)"
      from Cons.IH [OF this] show ?thesis by simp
    qed
  next
    case False
    obtain q qs where split: "split_on c xs = q # qs"
      by (cases "split_on c xs") simp_all
    with False Cons.prems have "p = x # q \<or> p \<in> set qs" by simp
    then show ?thesis
    proof
      assume p: "p = x # q"
      have "q \<in> set (split_on c xs)" using split by simp
      from Cons.IH [OF this] show ?thesis using p False by auto
    next
      assume "p \<in> set qs"
      then have "p \<in> set (split_on c xs)" using split by simp
      from Cons.IH [OF this] show ?thesis using False by auto
    qed
  qed
qed

text \<open>
  \<open>validateValue(measureOfTime, value)\<close>. A field name is looked up among the own properties
  of \<open>validatorObj\<close> (the names every object inherits, such as \<open>constructor\<close>, are not
  modelled; no property below is about them); a value with a comma is split and each part
  validated by the same function.
\<close>

function validateValue :: "string \<Rightarrow> string \<Rightarrow> error + unit" where
  "validateValue measureOfTime value =
     (case map_of validatorObj measureOfTime of
        None \<Rightarrow> Inl InvalidField
      | Some r \<Rightarrow>
          if validChars_test value then Inl InvalidCharacter
          else if value \<noteq> ''*'' then
            (if CHR '','' \<in> set value then
               forEach (validateValue measureOfTime) (split_on CHR '','' value)
             else if js_less (parseInt value) (min r) then
               Inl (OutOfRange measureOfTime (Minimum (min r)))
             else if js_greater (parseInt value) (max r) then
               Inl (OutOfRange measureOfTime (Maximum (max r)))
             else Inr ())
          else Inr ())"
  by pat_completeness auto
termination
  by (relation "measure (\<lambda>(m, v). length v)") (auto dest: split_on_part_length)

declare validateValue.simps [simp del]

text \<open>
  \<open>validateExpression(expression)\<close>: the object is the list of its own properties in the order
  of \<open>Object.keys\<close>, each value the comma-joined string that \<open>setAll\<close> passes.
\<close>

definition validateExpression :: "(string \<times> string) list \<Rightarrow> error + unit" where
  "validateExpression expression =
     (if length expression > 5 then Inl TooManyFields
      else forEach (\<lambda>(measureOfTime, value). validateValue measureOfTime value) expression)"

text \<open>
  \<open>validateString(expression)\<close>. The loop body reads \<open>CronValidator.splitExpression[i]\<close>, a
  static member of the class, and not the local \<open>splitExpression\<close>. The class declares the
  static members \<open>MeasureOfTimeMap\<close> and \<open>MeasureOfTimeValues\<close> and three static methods, and
  no \<open>splitExpression\<close>: the member access gives \<open>undefined\<close>, and reading index \<open>i\<close> of
  \<open>undefined\<close> throws a \<open>TypeError\<close> before \<open>validateValue\<close> is called. (Were the member an
  array, an index with no element would pass \<open>undefined\<close>, which the character test reads as
  the string \<open>"undefined"\<close>.)
\<close>

definition CronValidator_splitExpression :: "string list option" where
  "CronValidator_splitExpression = None"

definition validateString :: "string \<Rightarrow> error + unit" where
  "validateString expression =
     (let splitExpression = split_on CHR '' '' expression in
      if length splitExpression > 5 then Inl TooManyFields
      else forEach (\<lambda>i.
             case CronValidator_splitExpression of
               None \<Rightarrow> Inl TypeError
             | Some parts \<Rightarrow>
                 (case map_of MeasureOfTimeMap i of
                    None \<Rightarrow> Inl InvalidField
                  | Some measureOfTime \<Rightarrow>
                      if i < length parts then validateValue measureOfTime (parts ! i)
                      else validateValue measureOfTime ''undefined''))
           [0 ..< length splitExpression])"

section \<open>The store\<close>

text \<open>
  An array is an object: \<open>push\<close> changes it in place, and every variable and property that
  holds it sees the change. The module constant \<open>DEFAULT_INTERVAL\<close> is one array, and every
  field at the default holds that same array. So arrays live in a store, a list of arrays
  indexed by address, and a field of the expression holds an address. An element of an array
  is a string or the address of another array (the source builds \<open>[DEFAULT_INTERVAL]\<close>).

  An array that a caller passes in (the second argument of \<open>set\<close>, the values of the object
  given to \<open>setAll\<close>) is written as an array literal of strings at the call, as in every example
  of the documentation: it is a \<open>string list\<close> here, and it enters the store when the call
  keeps it.
\<close>

type_synonym addr = nat

datatype elem = Str string | Arr addr

type_synonym store = "elem list list"

definition deref :: "store \<Rightarrow> addr \<Rightarrow> elem list" where
  "deref h a = (if a < length h then h ! a else [])"

definition alloc :: "elem list \<Rightarrow> store \<Rightarrow> addr \<times> store" where
  "alloc xs h = (length h, h @ [xs])"

text \<open>\<open>const DEFAULT_INTERVAL = ['*']\<close>: the first array of the store, made when the module
  loads.\<close>

definition DEFAULT_INTERVAL :: addr where
  "DEFAULT_INTERVAL = 0"

definition module_store :: store where
  "module_store = [[Str ''*'']]"

text \<open>
  \<open>xs.join(',')\<close> turns each element into a string and puts commas between them; an element
  that is an array is joined in the same way. The first argument of \<open>to_String\<close> bounds the
  depth of arrays inside arrays by the number of arrays of the store, which is enough for
  every store without a cycle (the runtime gives the empty string for an array that contains
  itself).
\<close>

fun to_String :: "nat \<Rightarrow> store \<Rightarrow> elem \<Rightarrow> string" where
  "to_String n h (Str s) = s"
| "to_String 0 h (Arr a) = []"
| "to_String (Suc n) h (Arr a) = join_strs '','' (map (to_String n h) (deref h a))"

definition join :: "store \<Rightarrow> elem list \<Rightarrow> string" where
  "join h xs = join_strs '','' (map (to_String (length h) h) xs)"

section \<open>CronBuilder\<close>

text \<open>
  The state of a builder: the store, and the object \<open>this.expression\<close>, a map from property
  names to the addresses of the arrays the properties hold (own properties only).
\<close>

record builder =
  heap :: store
  expression :: "string \<rightharpoonup> addr"

text \<open>The array a field holds, if the expression has the field.\<close>

definition field :: "builder \<Rightarrow> string \<Rightarrow> elem list option" where
  "field b measureOfTime = map_option (deref (heap b)) (expression b measureOfTime)"

text \<open>\<open>splitExpression[k] ? splitExpression[k].split(',') : DEFAULT_INTERVAL\<close>: a part that is
  missing or empty is falsy.\<close>

definition part_or_default :: "string list \<Rightarrow> nat \<Rightarrow> store \<Rightarrow> addr \<times> store" where
  "part_or_default splitExpression k h =
     (if k < length splitExpression \<and> splitExpression ! k \<noteq> []
      then alloc (map Str (split_on CHR '','' (splitExpression ! k))) h
      else (DEFAULT_INTERVAL, h))"

text \<open>\<open>new CronBuilder(initialExpression)\<close>; \<open>None\<close> is the call with no argument. An empty
  string is falsy, like no argument.\<close>

definition CronBuilder :: "string option \<Rightarrow> error + builder" where
  "CronBuilder initialExpression =
     (if (case initialExpression of None \<Rightarrow> False | Some e \<Rightarrow> e \<noteq> []) then
        (case validateString (the initialExpression) of
           Inl err \<Rightarrow> Inl err
         | Inr _ \<Rightarrow>
             (let splitExpression = split_on CHR '' '' (the initialExpression);
                  (a0, h0) = part_or_default splitExpression 0 module_store;
                  (a1, h1) = part_or_default splitExpression 1 h0;
                  (a2, h2) = part_or_default splitExpression 2 h1;
                  (a3, h3) = part_or_default splitExpression 3 h2;
                  (a4, h4) = part_or_default splitExpression 4 h3
              in Inr \<lparr>heap = h4,
                      expression = [''minute'' \<mapsto> a0, ''hour'' \<mapsto> a1, ''dayOfTheMonth'' \<mapsto> a2,
                                    ''month'' \<mapsto> a3, ''dayOfTheWeek'' \<mapsto> a4]\<rparr>))
      else
        Inr \<lparr>heap = module_store,
             expression = [''minute'' \<mapsto> DEFAULT_INTERVAL, ''hour'' \<mapsto> DEFAULT_INTERVAL,
                           ''dayOfTheMonth'' \<mapsto> DEFAULT_INTERVAL, ''month'' \<mapsto> DEFAULT_INTERVAL,
                           ''dayOfTheWeek'' \<mapsto> DEFAULT_INTERVAL]\<rparr>)"

text \<open>\<open>build()\<close>; reading \<open>join\<close> of a field the expression does not have is a \<open>TypeError\<close>.\<close>

definition build :: "builder \<Rightarrow> error + string" where
  "build b =
     (case (expression b ''minute'', expression b ''hour'', expression b ''dayOfTheMonth'',
            expression b ''month'', expression b ''dayOfTheWeek'') of
        (Some a0, Some a1, Some a2, Some a3, Some a4) \<Rightarrow>
          Inr (join_strs '' ''
                 [join (heap b) (deref (heap b) a0), join (heap b) (deref (heap b) a1),
                  join (heap b) (deref (heap b) a2), join (heap b) (deref (heap b) a3),
                  join (heap b) (deref (heap b) a4)])
      | _ \<Rightarrow> Inl TypeError)"

text \<open>
  The methods below change the builder, and a method that throws may have changed it before:
  each returns its result or its exception together with the builder it leaves.

  \<open>is_default xs\<close> is the test \<open>xs.length === 1 && xs[0] === '*'\<close> of \<open>addValue\<close> and
  \<open>removeValue\<close>; \<open>push a x\<close> is \<open>push(x)\<close> on the array at address \<open>a\<close>;
  \<open>assign_new measureOfTime xs\<close> is \<open>this.expression[measureOfTime] = \<dots>\<close> for a new array
  with the elements \<open>xs\<close>, and \<open>assign measureOfTime a\<close> the same for an array that exists.
\<close>

definition is_default :: "elem list \<Rightarrow> bool" where
  "is_default xs = (length xs = 1 \<and> xs ! 0 = Str ''*'')"

definition push :: "addr \<Rightarrow> elem \<Rightarrow> builder \<Rightarrow> builder" where
  "push a x b = b\<lparr>heap := (heap b)[a := deref (heap b) a @ [x]]\<rparr>"

definition assign :: "string \<Rightarrow> addr \<Rightarrow> builder \<Rightarrow> builder" where
  "assign measureOfTime a b = b\<lparr>expression := (expression b)(measureOfTime \<mapsto> a)\<rparr>"

definition assign_new :: "string \<Rightarrow> elem list \<Rightarrow> builder \<Rightarrow> builder" where
  "assign_new measureOfTime xs b =
     (let (a, h') = alloc xs (heap b) in assign measureOfTime a (b\<lparr>heap := h'\<rparr>))"

text \<open>\<open>addValue(measureOfTime, value)\<close>. The loop runs over the parts \<open>e\<close> of the value and
  pushes \<open>value\<close>, as the source does.\<close>

definition addValue :: "string \<Rightarrow> string \<Rightarrow> builder \<Rightarrow> (error + unit) \<times> builder" where
  "addValue measureOfTime value b =
     (case validateValue measureOfTime value of
        Inl err \<Rightarrow> (Inl err, b)
      | Inr _ \<Rightarrow>
          (case expression b measureOfTime of
             None \<Rightarrow> (Inl TypeError, b)
           | Some a \<Rightarrow>
               if is_default (deref (heap b) a) then
                 (Inr (), assign_new measureOfTime [Str value] b)
               else
                 (Inr (),
                  fold (\<lambda>e b'. if Str e \<notin> set (deref (heap b') a) then push a (Str value) b' else b')
                    (split_on CHR '','' value) b)))"

definition noop_message :: "string \<Rightarrow> string" where
  \<open>noop_message measureOfTime =
     ''The value for "'' @ measureOfTime @
     ''" is already at the default value of "*" - this is a no-op.''\<close>

text \<open>\<open>removeValue(measureOfTime, value)\<close> returns the message, or nothing (\<open>None\<close>).\<close>

definition removeValue :: "string \<Rightarrow> string \<Rightarrow> builder \<Rightarrow> (error + string option) \<times> builder" where
  "removeValue measureOfTime value b =
     (case expression b measureOfTime of
        None \<Rightarrow> (Inl InvalidField, b)
      | Some a \<Rightarrow>
          if is_default (deref (heap b) a) then (Inr (Some (noop_message measureOfTime)), b)
          else
            (let b' = assign_new measureOfTime
                        (filter (\<lambda>timeValue. Str value \<noteq> timeValue) (deref (heap b) a)) b
             in if (case field b' measureOfTime of None \<Rightarrow> False | Some xs \<Rightarrow> length xs = 0)
                then (Inr None, assign measureOfTime DEFAULT_INTERVAL b')
                else (Inr None, b')))"

definition get :: "string \<Rightarrow> builder \<Rightarrow> error + string" where
  "get measureOfTime b =
     (case field b measureOfTime of
        None \<Rightarrow> Inl InvalidField
      | Some xs \<Rightarrow> Inr (join (heap b) xs))"

text \<open>\<open>this.expression[measureOfTime].join(',')\<close> with no test before it, the last line of
  \<open>set\<close>.\<close>

definition joined :: "string \<Rightarrow> builder \<Rightarrow> error + string" where
  "joined measureOfTime b =
     (case field b measureOfTime of
        None \<Rightarrow> Inl TypeError
      | Some xs \<Rightarrow> Inr (join (heap b) xs))"

text \<open>The second argument of \<open>set\<close>: an array of strings, or a value that is not an array.\<close>

datatype arg = NotAnArray | Array "string list"

text \<open>\<open>set(measureOfTime, value)\<close>. For the empty array the source stores
  \<open>[DEFAULT_INTERVAL]\<close>, a new array whose one element is the array \<open>DEFAULT_INTERVAL\<close>.\<close>

definition set_field :: "string \<Rightarrow> arg \<Rightarrow> builder \<Rightarrow> (error + string) \<times> builder" where
  "set_field measureOfTime value b =
     (case value of
        NotAnArray \<Rightarrow> (Inl InvalidValueType, b)
      | Array vs \<Rightarrow>
          if length vs = 0 then
            (let b' = assign_new measureOfTime [Arr DEFAULT_INTERVAL] b
             in (joined measureOfTime b', b'))
          else
            (case forEach (validateValue measureOfTime) vs of
               Inl err \<Rightarrow> (Inl err, b)
             | Inr _ \<Rightarrow>
                 (let b' = assign_new measureOfTime (map Str vs) b
                  in (joined measureOfTime b', b'))))"

text \<open>
  \<open>setAll(expToSet)\<close>: the object is the list of its properties in the order of
  \<open>Object.keys\<close>. \<open>set_each\<close> is the second \<open>forEach\<close>, which calls \<open>set\<close> for each key.
\<close>

fun set_each :: "(string \<times> string list) list \<Rightarrow> builder \<Rightarrow> (error + unit) \<times> builder" where
  "set_each [] b = (Inr (), b)"
| "set_each ((e, vs) # rest) b =
     (case set_field e (Array vs) b of
        (Inl err, b') \<Rightarrow> (Inl err, b')
      | (Inr _, b') \<Rightarrow> set_each rest b')"

definition setAll :: "(string \<times> string list) list \<Rightarrow> builder \<Rightarrow> (error + unit) \<times> builder" where
  "setAll expToSet b =
     (let testExp = map (\<lambda>(e, vs). (e, join_strs '','' vs)) expToSet in
      case validateExpression testExp of
        Inl err \<Rightarrow> (Inl err, b)
      | Inr _ \<Rightarrow> set_each expToSet b)"

text \<open>
  A caller's calls that change the builder, and what a sequence of them leaves; a call that
  throws leaves the builder as the exception found it, and the caller goes on.
\<close>

datatype op =
    AddValue string string
  | RemoveValue string string
  | Set string arg
  | SetAll "(string \<times> string list) list"

fun step :: "op \<Rightarrow> builder \<Rightarrow> builder" where
  "step (AddValue measureOfTime value) b = snd (addValue measureOfTime value b)"
| "step (RemoveValue measureOfTime value) b = snd (removeValue measureOfTime value b)"
| "step (Set measureOfTime value) b = snd (set_field measureOfTime value b)"
| "step (SetAll expToSet) b = snd (setAll expToSet b)"

definition run :: "op list \<Rightarrow> builder \<Rightarrow> builder" where
  "run ops b = fold step ops b"

section \<open>Properties of the fields\<close>

text \<open>
  A token is a comma-delimited unit of a field's value: the tokens of a field are the parts,
  split at the commas, of the string that \<open>get\<close> returns for it. \<open>wildcard_exclusive\<close> says
  of a list of tokens that the wildcard and other tokens exclude each other.
\<close>

definition wildcard_exclusive :: "string list \<Rightarrow> bool" where
  "wildcard_exclusive ts = (list_ex (\<lambda>t. t \<noteq> ''*'') ts \<longrightarrow> ''*'' \<notin> set ts)"

text \<open>The tokens of a sequence of strings, each split at its commas; \<open>sole_wildcard\<close> is
  stronger than the exclusion: the wildcard is a token of the sequence only when the
  sequence is exactly \<open>["*"]\<close>.\<close>

definition tokens :: "string list \<Rightarrow> string list" where
  "tokens ss = concat (map (split_on CHR '','') ss)"

definition sole_wildcard :: "string list \<Rightarrow> bool" where
  "sole_wildcard ss = (''*'' \<in> set (tokens ss) \<longrightarrow> ss = [''*''])"

text \<open>The calls that keep \<open>sole_wildcard\<close> in every field: \<open>addValue\<close> of a value none of
  whose comma-separated parts is \<open>*\<close>, every \<open>removeValue\<close>, and \<open>set\<close> and \<open>setAll\<close> of
  sequences that are not empty and hold it themselves.\<close>

fun keeps_wildcard :: "op \<Rightarrow> bool" where
  "keeps_wildcard (AddValue measureOfTime value) = (''*'' \<notin> set (split_on CHR '','' value))"
| "keeps_wildcard (RemoveValue measureOfTime value) = True"
| "keeps_wildcard (Set measureOfTime NotAnArray) = True"
| "keeps_wildcard (Set measureOfTime (Array vs)) = (vs \<noteq> [] \<and> sole_wildcard vs)"
| "keeps_wildcard (SetAll expToSet) =
     list_all (\<lambda>(e, vs). vs \<noteq> [] \<and> sole_wildcard vs) expToSet"

text \<open>The decimal numeral of an integer, as \<open>String(t)\<close> writes it.\<close>

fun dec :: "nat \<Rightarrow> string" where
  "dec n = (if n < 10 then [''0123456789'' ! n] else dec (n div 10) @ [''0123456789'' ! (n mod 10)])"

declare dec.simps [simp del]

definition token :: "int \<Rightarrow> string" where
  "token t = (if t < 0 then CHR ''-'' # dec (nat (- t)) else dec (nat t))"

text \<open>The invariant of the store behind the properties below: \<open>DEFAULT_INTERVAL\<close> still is
  \<open>['*']\<close>, and every field holds the address of an array of the store that is not empty.\<close>

definition well_formed :: "builder \<Rightarrow> bool" where
  "well_formed b =
     (deref (heap b) DEFAULT_INTERVAL = [Str ''*''] \<and>
      (\<forall>m a. expression b m = Some a \<longrightarrow> a < length (heap b) \<and> deref (heap b) a \<noteq> []))"

text \<open>Every field holds strings only, and they satisfy \<open>sole_wildcard\<close>.\<close>

definition fields_sole_wildcard :: "builder \<Rightarrow> bool" where
  "fields_sole_wildcard b =
     (\<forall>m xs. field b m = Some xs \<longrightarrow> (\<exists>ss. xs = map Str ss \<and> sole_wildcard ss))"

section \<open>Facts about the store and the constructor\<close>

lemma deref_alloc_old: "a < length h \<Longrightarrow> deref (h @ [xs]) a = deref h a"
  by (simp add: deref_def nth_append)

lemma deref_alloc_new: "deref (h @ [xs]) (length h) = xs"
  by (simp add: deref_def)

lemma deref_update:
  "deref (h[a := ys]) a' = (if a' = a \<and> a < length h then ys else deref h a')"
  by (simp add: deref_def)

lemma is_default_iff: "is_default xs \<longleftrightarrow> xs = [Str ''*'']"
  by (cases xs) (auto simp: is_default_def)

text \<open>\<open>validateString\<close> returns for no string: it throws \<open>TooManyFields\<close> for more than five
  parts, and otherwise the first round of its loop throws the \<open>TypeError\<close>.\<close>

lemma validateString_throws: "validateString e \<noteq> Inr ()"
proof -
  have "0 < length (split_on CHR '' '' e)" by simp
  then have "[0 ..< length (split_on CHR '' '' e)] = 0 # [1 ..< length (split_on CHR '' '' e)]"
    by (simp add: upt_rec)
  then show ?thesis
    by (simp add: validateString_def CronValidator_splitExpression_def Let_def)
qed

text \<open>So the constructor throws for every string that is not empty, and the only builder it
  returns is the default one.\<close>

lemma CronBuilder_string_throws: "e \<noteq> [] \<Longrightarrow> \<exists>err. CronBuilder (Some e) = Inl err"
  using validateString_throws [of e]
  by (cases "validateString e") (auto simp: CronBuilder_def)

lemma CronBuilder_Inr:
  "CronBuilder init = Inr b \<Longrightarrow>
   b = \<lparr>heap = module_store,
        expression = [''minute'' \<mapsto> DEFAULT_INTERVAL, ''hour'' \<mapsto> DEFAULT_INTERVAL,
                      ''dayOfTheMonth'' \<mapsto> DEFAULT_INTERVAL, ''month'' \<mapsto> DEFAULT_INTERVAL,
                      ''dayOfTheWeek'' \<mapsto> DEFAULT_INTERVAL]\<rparr>"
  using validateString_throws [of "the init"]
  by (auto simp: CronBuilder_def split: if_splits sum.splits)

section \<open>Facts about the validator\<close>

lemma known_field: "m \<in> set MeasureOfTimeValues \<Longrightarrow> \<exists>r. map_of validatorObj m = Some r"
  by (auto simp: MeasureOfTimeValues_def MeasureOfTimeMap_def validatorObj_def)

lemma parseInt_empty: "parseInt [] = None"
  by (simp add: parseInt_def)

lemma validateValue_empty: "map_of validatorObj m = Some r \<Longrightarrow> validateValue m [] = Inr ()"
  by (simp add: validateValue.simps [of m "[]"] validChars_test_def parseInt_empty js_less_def
      js_greater_def)

lemma split_on_append: "split_on c (a @ c # r) = split_on c a @ split_on c r"
proof (induction a)
  case Nil
  show ?case by simp
next
  case (Cons x xs)
  obtain q qs where "split_on c xs = q # qs"
    by (cases "split_on c xs") simp_all
  with Cons show ?case by simp
qed

lemma forEach_append:
  "forEach f (xs @ ys) = (case forEach f xs of Inl e \<Rightarrow> Inl e | Inr u \<Rightarrow> forEach f ys)"
  by (induction xs) (auto split: sum.splits)

lemma validateValue_comma:
  assumes "map_of validatorObj m = Some r" and "CHR '','' \<in> set v"
  shows "validateValue m v =
    (if validChars_test v then Inl InvalidCharacter
     else forEach (validateValue m) (split_on CHR '','' v))"
proof -
  have "v \<noteq> ''*''" using assms(2) by auto
  with assms show ?thesis by (subst validateValue.simps) simp
qed

lemma validateValue_empty_part:
  assumes "map_of validatorObj m = Some r"
  shows "validateValue m (a @ '',,'' @ b) = validateValue m (a @ '','' @ b)"
proof -
  have chars: "validChars_test (a @ '',,'' @ b) = validChars_test (a @ '','' @ b)"
    by (auto simp: validChars_test_def)
  have s2: "split_on CHR '','' (a @ '',,'' @ b) = split_on CHR '','' a @ [] # split_on CHR '','' b"
    using split_on_append [of "CHR '',''" a "CHR '','' # b"] by simp
  have s1: "split_on CHR '','' (a @ '','' @ b) = split_on CHR '','' a @ split_on CHR '','' b"
    using split_on_append [of "CHR '',''" a b] by simp
  have loop: "forEach (validateValue m) (split_on CHR '','' (a @ '',,'' @ b)) =
      forEach (validateValue m) (split_on CHR '','' (a @ '','' @ b))"
    unfolding s1 s2 by (simp add: forEach_append validateValue_empty [OF assms] split: sum.splits)
  have "validateValue m (a @ '',,'' @ b) =
      (if validChars_test (a @ '',,'' @ b) then Inl InvalidCharacter
       else forEach (validateValue m) (split_on CHR '','' (a @ '',,'' @ b)))"
    by (rule validateValue_comma [OF assms]) simp
  also have "\<dots> = (if validChars_test (a @ '','' @ b) then Inl InvalidCharacter
       else forEach (validateValue m) (split_on CHR '','' (a @ '','' @ b)))"
    by (simp only: chars loop)
  also have "\<dots> = validateValue m (a @ '','' @ b)"
    by (rule validateValue_comma [OF assms, symmetric]) simp
  finally show ?thesis .
qed

text \<open>Decimal numerals: \<open>parseInt\<close> reads back the number that \<open>dec\<close> writes, and
  \<open>validateValue\<close> on a numeral is the comparison with the two bounds.\<close>

lemma is_digit_facts:
  "is_digit c \<Longrightarrow> radix_digit 10 c \<and> \<not> is_space c \<and> c \<noteq> CHR ''*'' \<and> c \<noteq> CHR '','' \<and>
     c \<noteq> CHR ''-'' \<and> c \<noteq> CHR ''+'' \<and> c \<noteq> CHR ''x'' \<and> c \<noteq> CHR ''X''"
  by (auto simp: is_digit_def radix_digit_def digit_of_def is_space_def)

lemma digit_of_nth: "n < 10 \<Longrightarrow> digit_of (''0123456789'' ! n) = Some n"
proof -
  assume "n < 10"
  then have "n \<in> {0, 1, 2, 3, 4, 5, 6, 7, 8, 9}" by auto
  then show ?thesis by (auto simp: digit_of_def)
qed

lemma is_digit_nth: "n < 10 \<Longrightarrow> is_digit (''0123456789'' ! n)"
  unfolding is_digit_def by (rule nth_mem) simp

lemma dec_digits: "c \<in> set (dec n) \<Longrightarrow> is_digit c"
proof (induction n rule: dec.induct)
  case (1 n)
  show ?case
  proof (cases "n < 10")
    case True
    with "1.prems" show ?thesis by (simp add: dec.simps [of n] is_digit_nth)
  next
    case False
    with "1.prems" "1.IH" show ?thesis
      by (auto simp: dec.simps [of n] is_digit_nth)
  qed
qed

lemma dec_not_Nil: "dec n \<noteq> []"
  by (simp add: dec.simps [of n])

lemma to_number_snoc:
  "to_number r (ds @ [c]) = to_number r ds * r + (case digit_of c of None \<Rightarrow> 0 | Some d \<Rightarrow> d)"
  by (simp add: to_number_def)

lemma to_number_dec: "to_number 10 (dec n) = n"
proof (induction n rule: dec.induct)
  case (1 n)
  show ?case
  proof (cases "n < 10")
    case True
    then show ?thesis by (simp add: dec.simps [of n] to_number_def digit_of_nth)
  next
    case False
    with "1.IH" show ?thesis
      by (simp add: dec.simps [of n] to_number_snoc digit_of_nth)
  qed
qed

lemma parseInt_digits:
  assumes "ds \<noteq> []" and "\<And>c. c \<in> set ds \<Longrightarrow> is_digit c"
  shows "parseInt ds = Some (int (to_number 10 ds))"
proof -
  obtain c cs where ds: "ds = c # cs" using assms(1) by (cases ds) auto
  have c: "is_digit c" using assms(2) ds by simp
  have drop: "dropWhile is_space ds = ds" using c ds is_digit_facts by simp
  have sign: "take 1 ds \<noteq> ''-''" "take 1 ds \<noteq> ''+''" using c ds is_digit_facts by auto
  have hex: "take 2 ds \<noteq> ''0x''" "take 2 ds \<noteq> ''0X''"
    using assms(2) ds is_digit_facts by (cases cs; auto)+
  have all: "takeWhile (radix_digit 10) ds = ds"
    using assms(2) is_digit_facts by simp
  show ?thesis
    using assms(1) sign hex by (simp add: parseInt_def Let_def drop all)
qed

lemma validateValue_dec:
  assumes "map_of validatorObj m = Some r"
  shows "validateValue m (dec n) =
    (if int n < min r then Inl (OutOfRange m (Minimum (min r)))
     else if max r < int n then Inl (OutOfRange m (Maximum (max r)))
     else Inr ())"
proof -
  have chars: "\<not> validChars_test (dec n)"
    using dec_digits by (auto simp: validChars_test_def list_ex_iff)
  have star: "dec n \<noteq> ''*''"
    using dec_digits [of "CHR ''*''" n] is_digit_facts by force
  have comma: "CHR '','' \<notin> set (dec n)"
    using dec_digits is_digit_facts by blast
  have num: "parseInt (dec n) = Some (int n)"
    using parseInt_digits [OF dec_not_Nil dec_digits] by (simp add: to_number_dec)
  show ?thesis
    using assms chars star comma
    by (subst validateValue.simps) (simp add: num js_less_def js_greater_def)
qed

lemma validateValue_minus:
  "map_of validatorObj m = Some r \<Longrightarrow> validateValue m (CHR ''-'' # v) = Inl InvalidCharacter"
  by (subst validateValue.simps) (simp add: validChars_test_def is_digit_def is_space_def)

lemma validatorObj_ranges:
  "map_of validatorObj m = Some r \<Longrightarrow> 0 \<le> min r \<and> min r \<le> max r"
  by (auto simp: validatorObj_def split: if_splits)

lemma set_field_minute_60:
  "set_field ''minute'' (Array [''60'']) b = (Inl (OutOfRange ''minute'' (Maximum 59)), b)"
proof -
  have "validateValue ''minute'' ''60'' = Inl (OutOfRange ''minute'' (Maximum 59))"
    by code_simp
  then show ?thesis by (simp add: set_field_def)
qed

section \<open>Facts about the builder\<close>

lemma well_formedD:
  "well_formed b \<Longrightarrow> expression b m = Some a \<Longrightarrow> a < length (heap b) \<and> deref (heap b) a \<noteq> []"
  by (simp add: well_formed_def)

lemma well_formed_default: "well_formed b \<Longrightarrow> deref (heap b) DEFAULT_INTERVAL = [Str ''*'']"
  by (simp add: well_formed_def)

lemma well_formed_heap: "well_formed b \<Longrightarrow> 0 < length (heap b)"
  by (cases "heap b") (auto simp: well_formed_def deref_def DEFAULT_INTERVAL_def)

lemma field_assign_new:
  assumes "well_formed b"
  shows "field (assign_new m xs b) m' = (if m' = m then Some xs else field b m')"
proof (cases "m' = m")
  case True
  then show ?thesis
    by (simp add: field_def assign_new_def assign_def alloc_def deref_alloc_new)
next
  case False
  show ?thesis
  proof (cases "expression b m'")
    case None
    with False show ?thesis by (simp add: field_def assign_new_def assign_def alloc_def)
  next
    case (Some a)
    with well_formedD [OF assms Some] False show ?thesis
      by (simp add: field_def assign_new_def assign_def alloc_def deref_alloc_old)
  qed
qed

lemma well_formed_assign_new:
  assumes "well_formed b" and "xs \<noteq> []"
  shows "well_formed (assign_new m xs b)"
proof -
  have "deref (heap b @ [xs]) DEFAULT_INTERVAL = [Str ''*'']"
    using well_formed_default [OF assms(1)] well_formed_heap [OF assms(1)]
    by (simp add: deref_alloc_old DEFAULT_INTERVAL_def)
  moreover have "a < length (heap b @ [xs]) \<and> deref (heap b @ [xs]) a \<noteq> []"
    if "((expression b)(m \<mapsto> length (heap b))) m' = Some a" for m' a
  proof (cases "m' = m")
    case True
    with that assms(2) show ?thesis by (auto simp: deref_alloc_new)
  next
    case False
    with that have "expression b m' = Some a" by simp
    from well_formedD [OF assms(1) this] show ?thesis by (simp add: deref_alloc_old)
  qed
  ultimately show ?thesis
    by (simp add: well_formed_def assign_new_def assign_def alloc_def)
qed

lemma field_assign_default:
  assumes "well_formed b"
  shows "field (assign m DEFAULT_INTERVAL (assign_new m xs b)) m' =
    (if m' = m then Some [Str ''*''] else field b m')"
proof (cases "m' = m")
  case True
  have "deref (heap b @ [xs]) DEFAULT_INTERVAL = [Str ''*'']"
    using well_formed_default [OF assms] well_formed_heap [OF assms]
    by (simp add: deref_alloc_old DEFAULT_INTERVAL_def)
  with True show ?thesis
    by (simp add: field_def assign_new_def assign_def alloc_def)
next
  case False
  then have "field (assign m DEFAULT_INTERVAL (assign_new m xs b)) m' = field (assign_new m xs b) m'"
    by (simp add: field_def assign_def)
  with False show ?thesis by (simp add: field_assign_new [OF assms])
qed

lemma well_formed_assign_default:
  assumes "well_formed b"
  shows "well_formed (assign m DEFAULT_INTERVAL (assign_new m xs b))"
proof -
  have d: "deref (heap b @ [xs]) DEFAULT_INTERVAL = [Str ''*'']"
    using well_formed_default [OF assms] well_formed_heap [OF assms]
    by (simp add: deref_alloc_old DEFAULT_INTERVAL_def)
  moreover have "a < length (heap b @ [xs]) \<and> deref (heap b @ [xs]) a \<noteq> []"
    if "((expression b)(m \<mapsto> DEFAULT_INTERVAL)) m' = Some a" for m' a
  proof (cases "m' = m")
    case True
    with that d well_formed_heap [OF assms] show ?thesis
      by (auto simp: DEFAULT_INTERVAL_def)
  next
    case False
    with that have "expression b m' = Some a" by simp
    from well_formedD [OF assms this] show ?thesis by (simp add: deref_alloc_old)
  qed
  ultimately show ?thesis
    by (simp add: well_formed_def assign_new_def assign_def alloc_def)
qed

lemma addValue_loop:
  assumes "a < length (heap b)"
  shows "\<exists>k. fold (\<lambda>e b'. if Str e \<notin> set (deref (heap b') a) then push a (Str v) b' else b') parts b
    = b\<lparr>heap := (heap b)[a := deref (heap b) a @ replicate k (Str v)]\<rparr>"
  using assms
proof (induction parts arbitrary: b)
  case Nil
  have "b = b\<lparr>heap := (heap b)[a := deref (heap b) a @ replicate 0 (Str v)]\<rparr>"
    using Nil by (simp add: deref_def)
  then have "fold (\<lambda>e b'. if Str e \<notin> set (deref (heap b') a) then push a (Str v) b' else b') [] b
    = b\<lparr>heap := (heap b)[a := deref (heap b) a @ replicate 0 (Str v)]\<rparr>"
    by simp
  then show ?case by (rule exI)
next
  case (Cons e parts)
  let ?f = "\<lambda>e b'. if Str e \<notin> set (deref (heap b') a) then push a (Str v) b' else b'"
  show ?case
  proof (cases "Str e \<notin> set (deref (heap b) a)")
    case False
    then have "fold ?f (e # parts) b = fold ?f parts b" by simp
    with Cons.IH [OF Cons.prems] show ?thesis by (simp only:)
  next
    case True
    let ?b1 = "push a (Str v) b"
    have len: "a < length (heap ?b1)" using Cons.prems by (simp add: push_def)
    from Cons.IH [OF len] obtain k where
      k: "fold ?f parts ?b1
        = ?b1\<lparr>heap := (heap ?b1)[a := deref (heap ?b1) a @ replicate k (Str v)]\<rparr>"
      by blast
    have eq: "?b1\<lparr>heap := (heap ?b1)[a := deref (heap ?b1) a @ replicate k (Str v)]\<rparr>
      = b\<lparr>heap := (heap b)[a := deref (heap b) a @ replicate (Suc k) (Str v)]\<rparr>"
      using Cons.prems by (simp add: push_def deref_update)
    have "fold ?f (e # parts) b = fold ?f parts ?b1" using True by simp
    then have "fold ?f (e # parts) b
      = b\<lparr>heap := (heap b)[a := deref (heap b) a @ replicate (Suc k) (Str v)]\<rparr>"
      using k eq by (simp only:)
    then show ?thesis by (rule exI)
  qed
qed


lemma well_formed_pushed:
  assumes "well_formed b" and "expression b m = Some a" and "deref (heap b) a \<noteq> [Str ''*'']"
  shows "well_formed (b\<lparr>heap := (heap b)[a := deref (heap b) a @ ys]\<rparr>)"
proof -
  have "a \<noteq> DEFAULT_INTERVAL" using assms(3) well_formed_default [OF assms(1)] by auto
  then have "deref ((heap b)[a := deref (heap b) a @ ys]) DEFAULT_INTERVAL = [Str ''*'']"
    using well_formed_default [OF assms(1)] by (simp add: deref_update)
  moreover have "a' < length (heap b) \<and> deref ((heap b)[a := deref (heap b) a @ ys]) a' \<noteq> []"
    if "expression b m' = Some a'" for m' a'
    using well_formedD [OF assms(1) that] well_formedD [OF assms(1) assms(2)]
    by (simp add: deref_update)
  ultimately show ?thesis by (simp add: well_formed_def)
qed

lemma field_pushed:
  assumes "well_formed b" and "expression b m = Some a"
  shows "field (b\<lparr>heap := (heap b)[a := deref (heap b) a @ ys]\<rparr>) m' =
    (if expression b m' = Some a then Some (deref (heap b) a @ ys) else field b m')"
  using well_formedD [OF assms]
  by (cases "expression b m'") (auto simp: field_def deref_update)

lemma addValue_cases:
  assumes "well_formed b" and "addValue m v b = (r, b')"
  shows "b' = b \<or> b' = assign_new m [Str v] b \<or>
    (\<exists>a k. expression b m = Some a \<and> deref (heap b) a \<noteq> [Str ''*''] \<and>
       b' = b\<lparr>heap := (heap b)[a := deref (heap b) a @ replicate k (Str v)]\<rparr>)"
proof (cases "validateValue m v")
  case (Inl e)
  with assms(2) show ?thesis by (simp add: addValue_def)
next
  case (Inr u)
  show ?thesis
  proof (cases "expression b m")
    case None
    with Inr assms(2) show ?thesis by (simp add: addValue_def)
  next
    case (Some a)
    show ?thesis
    proof (cases "deref (heap b) a = [Str ''*'']")
      case True
      with Inr Some assms(2) show ?thesis by (simp add: addValue_def is_default_iff)
    next
      case False
      from well_formedD [OF assms(1) Some] have "a < length (heap b)" by simp
      from addValue_loop [OF this, of v "split_on CHR '','' v"] obtain k where
        "fold (\<lambda>e b'. if Str e \<notin> set (deref (heap b') a) then push a (Str v) b' else b')
           (split_on CHR '','' v) b
         = b\<lparr>heap := (heap b)[a := deref (heap b) a @ replicate k (Str v)]\<rparr>" by blast
      with Inr Some False assms(2)
      have "b' = b\<lparr>heap := (heap b)[a := deref (heap b) a @ replicate k (Str v)]\<rparr>"
        by (simp add: addValue_def is_default_iff)
      with Some False show ?thesis by blast
    qed
  qed
qed

lemma well_formed_addValue:
  assumes "well_formed b"
  shows "well_formed (snd (addValue m v b))"
proof -
  obtain r b' where res: "addValue m v b = (r, b')" by (cases "addValue m v b")
  from addValue_cases [OF assms res] have "well_formed b'"
    using assms well_formed_assign_new [OF assms, of "[Str v]" m] well_formed_pushed [OF assms]
    by auto
  with res show ?thesis by simp
qed

lemma removeValue_cases:
  assumes "well_formed b" and "removeValue m v b = (r, b')"
  shows "b' = b \<or>
    (\<exists>a. expression b m = Some a \<and> deref (heap b) a \<noteq> [Str ''*''] \<and>
       (if filter (\<lambda>t. Str v \<noteq> t) (deref (heap b) a) = []
        then b' = assign m DEFAULT_INTERVAL (assign_new m [] b)
        else b' = assign_new m (filter (\<lambda>t. Str v \<noteq> t) (deref (heap b) a)) b))"
proof (cases "expression b m")
  case None
  with assms(2) show ?thesis by (simp add: removeValue_def)
next
  case (Some a)
  show ?thesis
  proof (cases "deref (heap b) a = [Str ''*'']")
    case True
    with Some assms(2) show ?thesis by (simp add: removeValue_def is_default_iff)
  next
    case False
    with Some assms(2) show ?thesis
      by (auto simp: removeValue_def is_default_iff Let_def field_assign_new [OF assms(1)]
          split: if_splits)
  qed
qed

lemma well_formed_removeValue:
  assumes "well_formed b"
  shows "well_formed (snd (removeValue m v b))"
proof -
  obtain r b' where res: "removeValue m v b = (r, b')" by (cases "removeValue m v b")
  from removeValue_cases [OF assms res] have "well_formed b'"
    using assms well_formed_assign_new [OF assms] well_formed_assign_default [OF assms]
    by (auto split: if_splits)
  with res show ?thesis by simp
qed

lemma joined_assign_new:
  "well_formed b \<Longrightarrow> joined m (assign_new m xs b) = Inr (join (heap (assign_new m xs b)) xs)"
  by (simp add: joined_def field_assign_new)

lemma set_field_cases:
  assumes "well_formed b" and "set_field m value b = (r, b')"
  shows "(b' = b \<and> (\<exists>e. r = Inl e)) \<or>
    (\<exists>vs s. value = Array vs \<and> r = Inr s \<and>
       b' = assign_new m (if vs = [] then [Arr DEFAULT_INTERVAL] else map Str vs) b)"
  using assms(2)
  by (auto simp: set_field_def Let_def joined_assign_new [OF assms(1)]
      split: arg.splits if_splits sum.splits)

lemma well_formed_set_field:
  assumes "well_formed b"
  shows "well_formed (snd (set_field m value b))"
proof -
  obtain r b' where res: "set_field m value b = (r, b')" by (cases "set_field m value b")
  from set_field_cases [OF assms res] have "well_formed b'"
    using assms well_formed_assign_new [OF assms] by auto
  with res show ?thesis by simp
qed

lemma set_field_frame:
  assumes "well_formed b" and "m' \<noteq> m"
  shows "field (snd (set_field m value b)) m' = field b m'"
proof -
  obtain r b' where res: "set_field m value b = (r, b')" by (cases "set_field m value b")
  from set_field_cases [OF assms(1) res] have "field b' m' = field b m'"
    using assms(2) field_assign_new [OF assms(1)] by auto
  with res show ?thesis by simp
qed

lemma set_field_success:
  assumes "well_formed b" and "set_field m (Array vs) b = (Inr s, b')"
  shows "field b' m = Some (if vs = [] then [Arr DEFAULT_INTERVAL] else map Str vs)"
  using set_field_cases [OF assms] field_assign_new [OF assms(1)] by auto

lemma well_formed_set_each: "well_formed b \<Longrightarrow> well_formed (snd (set_each xs b))"
proof (induction xs arbitrary: b)
  case Nil
  then show ?case by simp
next
  case (Cons x xs)
  obtain e vs where x: "x = (e, vs)" by (cases x)
  obtain r b1 where res: "set_field e (Array vs) b = (r, b1)" by (cases "set_field e (Array vs) b")
  have "well_formed b1" using well_formed_set_field [OF Cons.prems, of e "Array vs"] res by simp
  with Cons.IH [of b1] Cons.prems x res show ?case by (cases r) simp_all
qed

lemma set_each_frame:
  "well_formed b \<Longrightarrow> m' \<notin> fst ` set xs \<Longrightarrow> field (snd (set_each xs b)) m' = field b m'"
proof (induction xs arbitrary: b)
  case Nil
  then show ?case by simp
next
  case (Cons x xs)
  obtain e vs where x: "x = (e, vs)" by (cases x)
  obtain r b1 where res: "set_field e (Array vs) b = (r, b1)" by (cases "set_field e (Array vs) b")
  have wf1: "well_formed b1"
    using well_formed_set_field [OF Cons.prems(1), of e "Array vs"] res by simp
  have ne: "m' \<noteq> e" and rest: "m' \<notin> fst ` set xs" using Cons.prems(2) x by auto
  have f1: "field b1 m' = field b m'"
    using set_field_frame [OF Cons.prems(1) ne, of "Array vs"] res by simp
  with Cons.IH [OF wf1 rest] x res show ?case by (cases r) simp_all
qed

lemma set_each_success:
  "well_formed b \<Longrightarrow> distinct (map fst xs) \<Longrightarrow> set_each xs b = (Inr u, b') \<Longrightarrow>
   (m, ws) \<in> set xs \<Longrightarrow>
   field b' m = Some (if ws = [] then [Arr DEFAULT_INTERVAL] else map Str ws)"
proof (induction xs arbitrary: b)
  case Nil
  then show ?case by simp
next
  case (Cons x xs)
  obtain e vs where x: "x = (e, vs)" by (cases x)
  obtain r b1 where res: "set_field e (Array vs) b = (r, b1)" by (cases "set_field e (Array vs) b")
  from Cons.prems(3) x res obtain s where r: "r = Inr s" and rest: "set_each xs b1 = (Inr u, b')"
    by (cases r) simp_all
  have wf1: "well_formed b1"
    using well_formed_set_field [OF Cons.prems(1), of e "Array vs"] res by simp
  show ?case
  proof (cases "(m, ws) = (e, vs)")
    case True
    then have "m \<notin> fst ` set xs" using Cons.prems(2) x by simp
    from set_each_frame [OF wf1 this] rest have "field b' m = field b1 m" by simp
    with set_field_success [OF Cons.prems(1)] res r True show ?thesis by simp
  next
    case False
    with Cons.prems(4) x have "(m, ws) \<in> set xs" by auto
    from Cons.IH [OF wf1 _ rest this] Cons.prems(2) show ?thesis by simp
  qed
qed

lemma setAll_cases:
  assumes "setAll expToSet b = (r, b')"
  shows "(b' = b \<and> (\<exists>e. r = Inl e)) \<or> set_each expToSet b = (r, b')"
proof (cases "validateExpression (map (\<lambda>(e, vs). (e, join_strs '','' vs)) expToSet)")
  case (Inl e)
  then have "setAll expToSet b = (Inl e, b)" by (simp add: setAll_def)
  with assms have "b' = b" and "r = Inl e" by simp_all
  then show ?thesis by blast
next
  case (Inr u)
  then have "setAll expToSet b = set_each expToSet b" by (simp add: setAll_def)
  with assms show ?thesis by simp
qed

lemma well_formed_step: "well_formed b \<Longrightarrow> well_formed (step c b)"
proof (cases c)
  case (SetAll expToSet)
  assume wf: "well_formed b"
  obtain r b' where res: "setAll expToSet b = (r, b')" by (cases "setAll expToSet b")
  from setAll_cases [OF res] wf well_formed_set_each [OF wf, of expToSet] have "well_formed b'"
    by auto
  with SetAll res show ?thesis by simp
qed (simp_all add: well_formed_addValue well_formed_removeValue well_formed_set_field)

lemma well_formed_run: "well_formed b \<Longrightarrow> well_formed (run ops b)"
  unfolding run_def by (induction ops arbitrary: b) (simp_all add: well_formed_step)

lemma CronBuilder_well_formed:
  assumes "CronBuilder init = Inr b"
  shows "well_formed b"
  unfolding CronBuilder_Inr [OF assms]
  by (auto simp: well_formed_def module_store_def DEFAULT_INTERVAL_def deref_def split: if_splits)

text \<open>
  What holds of the fields after any calls: no field is empty; \<open>removeValue\<close> of the last
  token of a field leaves \<open>["*"]\<close>; and \<open>set\<close> refuses a value that is not an array,
  changes nothing when it throws, and stores a sequence that is not empty as it is given,
  returning its elements joined.
\<close>

lemma join_Str: "join h (map Str vs) = join_strs '','' vs"
  by (simp add: join_def comp_def)

lemma fields_never_empty:
  assumes "CronBuilder init = Inr b" and "field (run ops b) m = Some xs"
  shows "xs \<noteq> []"
proof -
  have "well_formed (run ops b)"
    using CronBuilder_well_formed [OF assms(1)] by (rule well_formed_run)
  with assms(2) show ?thesis by (auto simp: field_def dest: well_formedD)
qed

lemma removeValue_last_token:
  assumes "CronBuilder init = Inr b" and "field (run ops b) m = Some xs"
    and "xs \<noteq> [Str ''*'']" and "filter (\<lambda>t. Str v \<noteq> t) xs = []"
  shows "field (snd (removeValue m v (run ops b))) m = Some [Str ''*''] \<and>
    get m (snd (removeValue m v (run ops b))) = Inr ''*''"
proof -
  have wf: "well_formed (run ops b)"
    using CronBuilder_well_formed [OF assms(1)] by (rule well_formed_run)
  from assms(2) obtain a where a: "expression (run ops b) m = Some a"
    "deref (heap (run ops b)) a = xs" by (auto simp: field_def)
  have "snd (removeValue m v (run ops b)) = assign m DEFAULT_INTERVAL (assign_new m [] (run ops b))"
    using a assms(3,4) by (simp add: removeValue_def is_default_iff Let_def field_assign_new [OF wf])
  then have "field (snd (removeValue m v (run ops b))) m = Some [Str ''*'']"
    by (simp add: field_assign_default [OF wf])
  then show ?thesis by (simp add: get_def join_def)
qed

lemma set_field_contract:
  assumes "well_formed b"
  shows "set_field m NotAnArray b = (Inl InvalidValueType, b) \<and>
    (\<forall>e b'. set_field m (Array vs) b = (Inl e, b') \<longrightarrow> b' = b) \<and>
    (\<forall>s b'. vs \<noteq> [] \<and> set_field m (Array vs) b = (Inr s, b') \<longrightarrow>
       field b' m = Some (map Str vs) \<and> s = join_strs '','' vs)"
proof -
  have 1: "set_field m NotAnArray b = (Inl InvalidValueType, b)" by (simp add: set_field_def)
  have 2: "b' = b" if "set_field m (Array vs) b = (Inl e, b')" for e b'
    using set_field_cases [OF assms that] by auto
  have 3: "field b' m = Some (map Str vs) \<and> s = join_strs '','' vs"
    if "vs \<noteq> []" "set_field m (Array vs) b = (Inr s, b')" for s b'
  proof -
    from set_field_success [OF assms that(2)] that(1)
    have f: "field b' m = Some (map Str vs)" by simp
    from that have "joined m b' = Inr s"
      by (auto simp: set_field_def Let_def split: sum.splits)
    with f have "s = join_strs '','' vs" by (simp add: joined_def join_Str)
    with f show ?thesis by simp
  qed
  from 1 2 3 show ?thesis by blast
qed

text \<open>
  Tokens. The parts of a joined sequence are the parts of its strings, and the calls that
  keep \<open>sole_wildcard\<close> keep it in every field.
\<close>

lemma split_on_join_strs:
  "ss \<noteq> [] \<Longrightarrow> split_on c (join_strs [c] ss) = concat (map (split_on c) ss)"
proof (induction "[c]" ss rule: join_strs.induct)
  case 1
  then show ?case by simp
next
  case (2 x)
  then show ?case by simp
next
  case (3 x y ys)
  then show ?case using split_on_append [of c x "join_strs [c] (y # ys)"] by simp
qed

lemma sole_wildcard_exclusive:
  assumes "sole_wildcard ss" and "ss \<noteq> []"
  shows "wildcard_exclusive (split_on CHR '','' (join_strs '','' ss))"
proof -
  have parts: "split_on CHR '','' (join_strs '','' ss) = tokens ss"
    using split_on_join_strs [OF assms(2), of "CHR '',''"] by (simp add: tokens_def)
  show ?thesis
  proof (cases "''*'' \<in> set (tokens ss)")
    case True
    with assms(1) have "ss = [''*'']" by (simp add: sole_wildcard_def)
    then show ?thesis by (simp add: wildcard_exclusive_def)
  next
    case False
    then show ?thesis by (simp add: parts wildcard_exclusive_def)
  qed
qed

lemma tokens_append: "tokens (ss @ ts) = tokens ss @ tokens ts"
  by (simp add: tokens_def)

lemma tokens_replicate: "set (tokens (replicate k v)) \<subseteq> set (split_on CHR '','' v)"
  by (induction k) (auto simp: tokens_def)

lemma tokens_filter: "set (tokens (filter P ss)) \<subseteq> set (tokens ss)"
  by (auto simp: tokens_def)

lemma sole_wildcard_not_default:
  "sole_wildcard ss \<Longrightarrow> map Str ss \<noteq> [Str ''*''] \<Longrightarrow> ''*'' \<notin> set (tokens ss)"
  by (auto simp: sole_wildcard_def)

lemma sole_wildcard_addValue:
  assumes "well_formed b" and "fields_sole_wildcard b" and "''*'' \<notin> set (split_on CHR '','' v)"
  shows "fields_sole_wildcard (snd (addValue m v b))"
proof -
  obtain r b' where res: "addValue m v b = (r, b')" by (cases "addValue m v b")
  from addValue_cases [OF assms(1) res] consider
      "b' = b"
    | "b' = assign_new m [Str v] b"
    | a k where "expression b m = Some a" "deref (heap b) a \<noteq> [Str ''*'']"
        "b' = b\<lparr>heap := (heap b)[a := deref (heap b) a @ replicate k (Str v)]\<rparr>"
    by blast
  then have "fields_sole_wildcard b'"
  proof cases
    case 1
    with assms(2) show ?thesis by simp
  next
    case 2
    have "[Str v] = map Str [v] \<and> sole_wildcard [v]"
      using assms(3) by (simp add: sole_wildcard_def tokens_def)
    then have "\<exists>ss. [Str v] = map Str ss \<and> sole_wildcard ss" by (rule exI)
    with 2 assms(2) show ?thesis
      by (simp add: fields_sole_wildcard_def field_assign_new [OF assms(1)])
  next
    case 3
    have "\<exists>ss. xs = map Str ss \<and> sole_wildcard ss" if "field b' m' = Some xs" for m' xs
    proof (cases "expression b m' = Some a")
      case True
      then have "field b m' = Some (deref (heap b) a)" by (simp add: field_def)
      with assms(2) obtain ss where ss: "deref (heap b) a = map Str ss" "sole_wildcard ss"
        by (auto simp: fields_sole_wildcard_def)
      from sole_wildcard_not_default [OF ss(2)] 3(2) ss(1)
      have none: "''*'' \<notin> set (tokens ss)" by simp
      have xs: "xs = deref (heap b) a @ replicate k (Str v)"
        using that True 3(3) field_pushed [OF assms(1) 3(1)] by simp
      then have "xs = map Str (ss @ replicate k v)" using ss(1) by (simp add: map_replicate)
      moreover have "''*'' \<notin> set (tokens (ss @ replicate k v))"
        using none assms(3) tokens_replicate [of k v] by (auto simp: tokens_append)
      then have "sole_wildcard (ss @ replicate k v)" by (simp add: sole_wildcard_def)
      ultimately show ?thesis by blast
    next
      case False
      then have "field b m' = Some xs"
        using that 3(3) field_pushed [OF assms(1) 3(1)] by simp
      with assms(2) show ?thesis by (simp add: fields_sole_wildcard_def)
    qed
    then show ?thesis by (simp add: fields_sole_wildcard_def)
  qed
  with res show ?thesis by simp
qed

lemma sole_wildcard_removeValue:
  assumes "well_formed b" and "fields_sole_wildcard b"
  shows "fields_sole_wildcard (snd (removeValue m v b))"
proof -
  obtain r b' where res: "removeValue m v b = (r, b')" by (cases "removeValue m v b")
  have "fields_sole_wildcard b'"
  proof (cases "b' = b")
    case True
    with assms(2) show ?thesis by simp
  next
    case False
    with removeValue_cases [OF assms(1) res] obtain a where
      a: "expression b m = Some a" "deref (heap b) a \<noteq> [Str ''*'']" and
      b': "if filter (\<lambda>t. Str v \<noteq> t) (deref (heap b) a) = []
        then b' = assign m DEFAULT_INTERVAL (assign_new m [] b)
        else b' = assign_new m (filter (\<lambda>t. Str v \<noteq> t) (deref (heap b) a)) b"
      by blast
    from a(1) have "field b m = Some (deref (heap b) a)" by (simp add: field_def)
    with assms(2) obtain ss where ss: "deref (heap b) a = map Str ss" "sole_wildcard ss"
      by (auto simp: fields_sole_wildcard_def)
    from sole_wildcard_not_default [OF ss(2)] a(2) ss(1)
    have none: "''*'' \<notin> set (tokens ss)" by simp
    have f: "filter (\<lambda>t. Str v \<noteq> t) (deref (heap b) a) = map Str (filter (\<lambda>s. v \<noteq> s) ss)"
      unfolding ss(1) by (induction ss) auto
    have "sole_wildcard (filter (\<lambda>s. v \<noteq> s) ss)"
      using none tokens_filter [of "\<lambda>s. v \<noteq> s" ss] by (auto simp: sole_wildcard_def)
    then have new: "\<exists>ts. filter (\<lambda>t. Str v \<noteq> t) (deref (heap b) a) = map Str ts \<and> sole_wildcard ts"
      using f by blast
    have dflt: "\<exists>ts. [Str ''*''] = map Str ts \<and> sole_wildcard ts"
    proof -
      have "[Str ''*''] = map Str [''*''] \<and> sole_wildcard [''*'']"
        by (simp add: sole_wildcard_def)
      then show ?thesis by (rule exI)
    qed
    show ?thesis
    proof (cases "filter (\<lambda>t. Str v \<noteq> t) (deref (heap b) a) = []")
      case True
      with b' have "b' = assign m DEFAULT_INTERVAL (assign_new m [] b)" by simp
      with assms(2) dflt show ?thesis
        by (simp add: fields_sole_wildcard_def field_assign_default [OF assms(1)])
    next
      case False
      with b' have "b' = assign_new m (filter (\<lambda>t. Str v \<noteq> t) (deref (heap b) a)) b" by simp
      with assms(2) new show ?thesis
        by (simp add: fields_sole_wildcard_def field_assign_new [OF assms(1)])
    qed
  qed
  with res show ?thesis by simp
qed

lemma sole_wildcard_set_field:
  assumes "well_formed b" and "fields_sole_wildcard b" and "keeps_wildcard (Set m arg)"
  shows "fields_sole_wildcard (snd (set_field m arg b))"
proof -
  obtain r b' where res: "set_field m arg b = (r, b')" by (cases "set_field m arg b")
  from set_field_cases [OF assms(1) res] have "fields_sole_wildcard b'"
  proof
    assume "b' = b \<and> (\<exists>e. r = Inl e)"
    with assms(2) show ?thesis by simp
  next
    assume "\<exists>vs s. arg = Array vs \<and> r = Inr s \<and>
       b' = assign_new m (if vs = [] then [Arr DEFAULT_INTERVAL] else map Str vs) b"
    then obtain vs where vs: "arg = Array vs"
      "b' = assign_new m (if vs = [] then [Arr DEFAULT_INTERVAL] else map Str vs) b" by blast
    from assms(3) vs(1) have ok: "vs \<noteq> []" "sole_wildcard vs" by simp_all
    then have "\<exists>ss. map Str vs = map Str ss \<and> sole_wildcard ss" by blast
    with vs(2) ok(1) assms(2) show ?thesis
      by (simp add: fields_sole_wildcard_def field_assign_new [OF assms(1)])
  qed
  with res show ?thesis by simp
qed

lemma sole_wildcard_set_each:
  "well_formed b \<Longrightarrow> fields_sole_wildcard b \<Longrightarrow>
   list_all (\<lambda>(e, vs). vs \<noteq> [] \<and> sole_wildcard vs) xs \<Longrightarrow>
   fields_sole_wildcard (snd (set_each xs b))"
proof (induction xs arbitrary: b)
  case Nil
  then show ?case by simp
next
  case (Cons x xs)
  obtain e vs where x: "x = (e, vs)" by (cases x)
  obtain r b1 where res: "set_field e (Array vs) b = (r, b1)" by (cases "set_field e (Array vs) b")
  have wf1: "well_formed b1"
    using well_formed_set_field [OF Cons.prems(1), of e "Array vs"] res by simp
  have "keeps_wildcard (Set e (Array vs))" using Cons.prems(3) x by simp
  from sole_wildcard_set_field [OF Cons.prems(1,2) this] res
  have s1: "fields_sole_wildcard b1" by simp
  have "list_all (\<lambda>(e, vs). vs \<noteq> [] \<and> sole_wildcard vs) xs" using Cons.prems(3) by simp
  from Cons.IH [OF wf1 s1 this] s1 x res show ?case by (cases r) simp_all
qed

lemma sole_wildcard_step:
  assumes "well_formed b" and "fields_sole_wildcard b" and "keeps_wildcard c"
  shows "fields_sole_wildcard (step c b)"
proof (cases c)
  case (AddValue m v)
  with assms sole_wildcard_addValue show ?thesis by simp
next
  case (RemoveValue m v)
  with assms sole_wildcard_removeValue show ?thesis by simp
next
  case (Set m arg)
  with assms sole_wildcard_set_field show ?thesis by simp
next
  case (SetAll expToSet)
  obtain r b' where res: "setAll expToSet b = (r, b')" by (cases "setAll expToSet b")
  from setAll_cases [OF res] assms SetAll sole_wildcard_set_each [OF assms(1,2), of expToSet]
  have "fields_sole_wildcard b'" by auto
  with SetAll res show ?thesis by simp
qed

lemma sole_wildcard_run:
  "well_formed b \<Longrightarrow> fields_sole_wildcard b \<Longrightarrow> list_all keeps_wildcard ops \<Longrightarrow>
   fields_sole_wildcard (run ops b)"
  unfolding run_def
  by (induction ops arbitrary: b) (simp_all add: well_formed_step sole_wildcard_step)

lemma CronBuilder_sole_wildcard:
  assumes "CronBuilder init = Inr b"
  shows "fields_sole_wildcard b"
proof -
  have dflt: "\<exists>ss. [Str ''*''] = map Str ss \<and> sole_wildcard ss"
  proof -
    have "[Str ''*''] = map Str [''*''] \<and> sole_wildcard [''*'']"
      by (simp add: sole_wildcard_def)
    then show ?thesis by (rule exI)
  qed
  have "xs = [Str ''*'']" if "field b m = Some xs" for m xs
    using that unfolding CronBuilder_Inr [OF assms]
    by (auto simp: field_def module_store_def DEFAULT_INTERVAL_def deref_def split: if_splits)
  then have "\<exists>ss. xs = map Str ss \<and> sole_wildcard ss" if "field b m = Some xs" for m xs
    using that dflt by simp
  then show ?thesis by (simp add: fields_sole_wildcard_def)
qed

section \<open>The claims\<close>

text \<open>
  C1. The claim: constructing a builder from \<open>"0 0 1 1 0"\<close> succeeds and \<open>build()\<close> then
  returns \<open>"0 0 1 1 0"\<close>. The source does not: \<open>validateString\<close> reads
  \<open>CronValidator.splitExpression[i]\<close>, the constructor throws a \<open>TypeError\<close>, and there is no
  builder to call \<open>build()\<close> on.
\<close>

theorem C1_constructor_throws_on_string:
  "CronBuilder (Some ''0 0 1 1 0'') = Inl TypeError"
  by (simp add: CronBuilder_def validateString_def CronValidator_splitExpression_def upt_rec)

text \<open>
  C2. The claim: on a field that is not at the default, every comma-separated part of the
  value that the field does not hold yet is appended. The source pushes the whole value once
  for each such part: after \<open>addValue("hour", "5")\<close>, \<open>addValue("hour", "6,7")\<close> leaves the
  three elements \<open>"5"\<close>, \<open>"6,7"\<close>, \<open>"6,7"\<close>, and \<open>get("hour")\<close> returns \<open>"5,6,7,6,7"\<close>. The
  example of the claim, a value of one part, gives \<open>"5,10"\<close>.
\<close>

theorem C2_addValue_pushes_whole_value:
  "field (run [AddValue ''hour'' ''5'', AddValue ''hour'' ''6,7''] (projr (CronBuilder None))) ''hour''
     = Some [Str ''5'', Str ''6,7'', Str ''6,7''] \<and>
   get ''hour'' (run [AddValue ''hour'' ''5'', AddValue ''hour'' ''6,7''] (projr (CronBuilder None)))
     = Inr ''5,6,7,6,7'' \<and>
   get ''hour'' (run [AddValue ''hour'' ''5'', AddValue ''hour'' ''10''] (projr (CronBuilder None)))
     = Inr ''5,10''"
  by code_simp

text \<open>
  C3, as amended. After the construction with no initial expression and any sequence of
  \<open>removeValue\<close> calls, \<open>addValue\<close> calls none of whose comma-separated parts is \<open>"*"\<close>, and
  \<open>set\<close> and \<open>setAll\<close> calls whose sequences are not empty and have \<open>"*"\<close> as a token only
  when the sequence is exactly \<open>["*"]\<close>: the tokens of every field (the comma-separated
  parts of what \<open>get\<close> returns) do not hold \<open>"*"\<close> together with another token.
\<close>

theorem C3_wildcard_exclusive:
  assumes "CronBuilder None = Inr b" and "list_all keeps_wildcard ops"
    and "get m (run ops b) = Inr s"
  shows "wildcard_exclusive (split_on CHR '','' s)"
proof -
  have wf: "well_formed (run ops b)"
    using CronBuilder_well_formed [OF assms(1)] by (rule well_formed_run)
  have "fields_sole_wildcard (run ops b)"
    using CronBuilder_well_formed [OF assms(1)] CronBuilder_sole_wildcard [OF assms(1)] assms(2)
    by (rule sole_wildcard_run)
  moreover from assms(3) obtain xs where xs: "field (run ops b) m = Some xs"
    "s = join (heap (run ops b)) xs" by (auto simp: get_def split: option.splits)
  ultimately obtain ss where ss: "xs = map Str ss" "sole_wildcard ss"
    by (auto simp: fields_sole_wildcard_def)
  have "xs \<noteq> []" using wf xs(1) by (auto simp: field_def dest: well_formedD)
  with ss(1) have "ss \<noteq> []" by auto
  from sole_wildcard_exclusive [OF ss(2) this] xs(2) ss(1) show ?thesis
    by (simp add: join_Str)
qed

theorem C3_wildcard_exclusive_witness:
  "CronBuilder None = Inr (projr (CronBuilder None)) \<and>
   list_all keeps_wildcard
     [AddValue ''hour'' ''5'', AddValue ''hour'' ''10,12'', RemoveValue ''hour'' ''5'',
      Set ''month'' (Array [''1'', ''2''])] \<and>
   get ''hour'' (run [AddValue ''hour'' ''5'', AddValue ''hour'' ''10,12'', RemoveValue ''hour'' ''5'',
      Set ''month'' (Array [''1'', ''2''])] (projr (CronBuilder None))) = Inr ''10,12,10,12'' \<and>
   wildcard_exclusive (split_on CHR '','' ''10,12,10,12'')"
proof -
  let ?new = "projr (CronBuilder None)"
  let ?ops = "[AddValue ''hour'' ''5'', AddValue ''hour'' ''10,12'', RemoveValue ''hour'' ''5'',
      Set ''month'' (Array [''1'', ''2''])]"
  have c: "CronBuilder None = Inr ?new" by (simp add: CronBuilder_def)
  have k: "list_all keeps_wildcard ?ops" by (simp add: sole_wildcard_def tokens_def)
  have g: "get ''hour'' (run ?ops ?new) = Inr ''10,12,10,12''" by code_simp
  from C3_wildcard_exclusive [OF c k g] c k g show ?thesis by simp
qed

text \<open>The claim as stated, for any sequence of calls, is false: \<open>set\<close> stores the sequence it
  is given, and \<open>addValue\<close> of \<open>"*"\<close> on a field with explicit tokens pushes it.\<close>

theorem C3_wildcard_with_tokens_counterexample:
  "get ''hour'' (run [Set ''hour'' (Array [''*'', ''5''])] (projr (CronBuilder None)))
     = Inr ''*,5'' \<and>
   \<not> wildcard_exclusive (split_on CHR '','' ''*,5'') \<and>
   get ''hour'' (run [AddValue ''hour'' ''5'', AddValue ''hour'' ''*''] (projr (CronBuilder None)))
     = Inr ''5,*'' \<and>
   \<not> wildcard_exclusive (split_on CHR '','' ''5,*'')"
proof -
  have 1: "get ''hour'' (run [Set ''hour'' (Array [''*'', ''5''])] (projr (CronBuilder None)))
     = Inr ''*,5''" by code_simp
  have 2: "get ''hour'' (run [AddValue ''hour'' ''5'', AddValue ''hour'' ''*'']
     (projr (CronBuilder None))) = Inr ''5,*''" by code_simp
  from 1 2 show ?thesis by (simp add: wildcard_exclusive_def)
qed

text \<open>
  C4, as amended. For every field \<open>f\<close> with range \<open>r\<close> and every integer \<open>t\<close> with
  \<open>min r \<le> t \<le> max r\<close>, \<open>validateValue(f, t)\<close> succeeds on the numeral of \<open>t\<close>; for
  \<open>t = max r + 1\<close> it fails with \<open>OutOfRange\<close> (the maximum); for \<open>t = min r - 1\<close> it fails
  with \<open>OutOfRange\<close> (the minimum) when \<open>t\<close> is not negative, which is \<open>month\<close> and
  \<open>t = 0\<close>, and with \<open>InvalidCharacter\<close> when \<open>t = -1\<close>, because the minus sign is not
  an allowed character. \<open>set("minute", ["60"])\<close> fails with \<open>OutOfRange\<close> and leaves the
  builder as it was.
\<close>

theorem C4_validateValue_range:
  assumes "map_of validatorObj f = Some r"
  shows "(\<forall>t. min r \<le> t \<and> t \<le> max r \<longrightarrow> validateValue f (token t) = Inr ()) \<and>
    validateValue f (token (max r + 1)) = Inl (OutOfRange f (Maximum (max r))) \<and>
    validateValue f (token (min r - 1)) =
      (if min r - 1 < 0 then Inl InvalidCharacter else Inl (OutOfRange f (Minimum (min r)))) \<and>
    set_field ''minute'' (Array [''60'']) b = (Inl (OutOfRange ''minute'' (Maximum 59)), b)"
proof -
  note rng = validatorObj_ranges [OF assms]
  have inside: "validateValue f (token t) = Inr ()" if "min r \<le> t" "t \<le> max r" for t
    using that rng by (simp add: token_def validateValue_dec [OF assms])
  have above: "validateValue f (token (max r + 1)) = Inl (OutOfRange f (Maximum (max r)))"
    using rng by (simp add: token_def validateValue_dec [OF assms])
  have below: "validateValue f (token (min r - 1)) =
      (if min r - 1 < 0 then Inl InvalidCharacter else Inl (OutOfRange f (Minimum (min r))))"
    using rng by (simp add: token_def validateValue_dec [OF assms] validateValue_minus [OF assms])
  from inside above below set_field_minute_60 show ?thesis by blast
qed

theorem C4_validateValue_range_witness:
  "map_of validatorObj ''month'' = Some \<lparr>min = 1, max = 12\<rparr> \<and>
   validateValue ''month'' (token 12) = Inr () \<and>
   validateValue ''month'' (token 13) = Inl (OutOfRange ''month'' (Maximum 12)) \<and>
   validateValue ''month'' (token 0) = Inl (OutOfRange ''month'' (Minimum 1))"
proof -
  have m: "map_of validatorObj ''month'' = Some \<lparr>min = 1, max = 12\<rparr>"
    by (simp add: validatorObj_def)
  from C4_validateValue_range [OF m] m show ?thesis by simp
qed

text \<open>The claim as stated, "for \<open>t = min - 1\<close> it fails with \<open>OutOfRange\<close>", is false for
  \<open>minute\<close>: the numeral of \<open>-1\<close> is rejected for its minus sign before any bound is
  compared.\<close>

theorem C4_below_minimum_counterexample:
  "map_of validatorObj ''minute'' = Some \<lparr>min = 0, max = 59\<rparr> \<and>
   token (0 - 1) = ''-1'' \<and>
   validateValue ''minute'' ''-1'' = Inl InvalidCharacter"
  by (simp add: validatorObj_def token_def dec.simps validateValue.simps validChars_test_def
      is_digit_def is_space_def)

text \<open>
  C5. The claim: \<open>set\<close> with an empty sequence resets the field to the default wildcard.
  The source stores \<open>[DEFAULT_INTERVAL]\<close>, an array whose one element is the default array:
  \<open>set\<close> returns \<open>"*"\<close>, and the field is not at the default by the test of the source
  itself, so that \<open>removeValue\<close> on it does not return the no-op message.
\<close>

theorem C5_set_empty_stores_nested_array:
  "set_field ''month'' (Array []) (projr (CronBuilder None))
     = (Inr ''*'', assign_new ''month'' [Arr DEFAULT_INTERVAL] (projr (CronBuilder None))) \<and>
   field (snd (set_field ''month'' (Array []) (projr (CronBuilder None)))) ''month''
     = Some [Arr DEFAULT_INTERVAL] \<and>
   is_default [Arr DEFAULT_INTERVAL] = False \<and>
   fst (removeValue ''month'' ''1'' (snd (set_field ''month'' (Array []) (projr (CronBuilder None)))))
     = Inr None"
proof -
  have 1: "fst (set_field ''month'' (Array []) (projr (CronBuilder None))) = Inr ''*''"
    by code_simp
  have 2: "snd (set_field ''month'' (Array []) (projr (CronBuilder None)))
    = assign_new ''month'' [Arr DEFAULT_INTERVAL] (projr (CronBuilder None))"
    by (simp add: set_field_def Let_def)
  have 3: "field (snd (set_field ''month'' (Array []) (projr (CronBuilder None)))) ''month''
     = Some [Arr DEFAULT_INTERVAL]" by code_simp
  have 4: "fst (removeValue ''month'' ''1''
     (snd (set_field ''month'' (Array []) (projr (CronBuilder None))))) = Inr None" by code_simp
  from 1 2 have "set_field ''month'' (Array []) (projr (CronBuilder None))
     = (Inr ''*'', assign_new ''month'' [Arr DEFAULT_INTERVAL] (projr (CronBuilder None)))"
    by (simp add: prod_eq_iff)
  with 3 4 show ?thesis by (simp add: is_default_def)
qed

text \<open>
  C6. The claim: \<open>set\<close> with an empty sequence resets the field to the default wildcard.
  The field then holds the array \<open>[DEFAULT_INTERVAL]\<close> and \<open>get\<close> returns \<open>"*"\<close>, and a
  following \<open>addValue("hour", "5")\<close> pushes onto it instead of replacing it: \<open>get\<close> returns
  \<open>"*,5"\<close>.
\<close>

theorem C6_set_empty_is_not_default:
  "field (run [Set ''hour'' (Array [])] (projr (CronBuilder None))) ''hour''
     = Some [Arr DEFAULT_INTERVAL] \<and>
   get ''hour'' (run [Set ''hour'' (Array [])] (projr (CronBuilder None))) = Inr ''*'' \<and>
   field (run [Set ''hour'' (Array []), AddValue ''hour'' ''5''] (projr (CronBuilder None))) ''hour''
     = Some [Arr DEFAULT_INTERVAL, Str ''5''] \<and>
   get ''hour'' (run [Set ''hour'' (Array []), AddValue ''hour'' ''5''] (projr (CronBuilder None)))
     = Inr ''*,5''"
  by code_simp

text \<open>
  C7. \<open>setAll\<close> leaves every field that its argument omits as it was, whatever calls came
  before and whether it returns or throws; and when it returns, every field supplied with a
  sequence that is not empty holds that sequence. (The keys of an object are distinct.)
\<close>

theorem C7_setAll_frame:
  assumes "CronBuilder init = Inr b" and "setAll expToSet (run ops b) = (r, b')"
  shows "(\<forall>m. m \<notin> fst ` set expToSet \<longrightarrow> field b' m = field (run ops b) m) \<and>
    (r = Inr () \<and> distinct (map fst expToSet) \<longrightarrow>
       (\<forall>m vs. (m, vs) \<in> set expToSet \<and> vs \<noteq> [] \<longrightarrow> field b' m = Some (map Str vs)))"
proof -
  have wf: "well_formed (run ops b)"
    using CronBuilder_well_formed [OF assms(1)] by (rule well_formed_run)
  from setAll_cases [OF assms(2)]
  have frame: "field b' m = field (run ops b) m" if "m \<notin> fst ` set expToSet" for m
    using set_each_frame [OF wf that] by auto
  have supplied: "field b' m = Some (map Str vs)"
    if "r = Inr ()" "distinct (map fst expToSet)" "(m, vs) \<in> set expToSet" "vs \<noteq> []" for m vs
  proof -
    from setAll_cases [OF assms(2)] that(1)
    have "set_each expToSet (run ops b) = (Inr (), b')" by auto
    from set_each_success [OF wf that(2) this that(3)] that(4) show ?thesis by simp
  qed
  from frame supplied show ?thesis by blast
qed

theorem C7_setAll_frame_witness:
  "CronBuilder None = Inr (projr (CronBuilder None)) \<and>
   fst (setAll [(''hour'', [''5''])] (run [AddValue ''minute'' ''7''] (projr (CronBuilder None))))
     = Inr () \<and>
   field (snd (setAll [(''hour'', [''5''])]
       (run [AddValue ''minute'' ''7''] (projr (CronBuilder None))))) ''minute''
     = Some [Str ''7''] \<and>
   field (snd (setAll [(''hour'', [''5''])]
       (run [AddValue ''minute'' ''7''] (projr (CronBuilder None))))) ''hour''
     = Some [Str ''5'']"
proof -
  let ?new = "projr (CronBuilder None)"
  let ?cur = "run [AddValue ''minute'' ''7''] ?new"
  have c: "CronBuilder None = Inr ?new" by (simp add: CronBuilder_def)
  have r: "fst (setAll [(''hour'', [''5''])] ?cur) = Inr ()" by code_simp
  have m: "field ?cur ''minute'' = Some [Str ''7'']" by code_simp
  have s: "setAll [(''hour'', [''5''])] ?cur
    = (fst (setAll [(''hour'', [''5''])] ?cur), snd (setAll [(''hour'', [''5''])] ?cur))" by simp
  from C7_setAll_frame [where ops = "[AddValue ''minute'' ''7'']", OF c s] c r m
  show ?thesis by simp
qed

text \<open>
  C8. \<open>removeValue(field, value)\<close> on a field that holds exactly the default \<open>["*"]\<close> returns
  the no-op message and changes nothing: the builder is the same, and \<open>get(field)\<close> still
  returns \<open>"*"\<close>.
\<close>

theorem C8_removeValue_at_default:
  "field b m = Some [Str ''*''] \<Longrightarrow>
   removeValue m v b = (Inr (Some (noop_message m)), b) \<and> get m b = Inr ''*''"
  by (auto simp: removeValue_def get_def field_def is_default_iff join_def split: option.splits)

theorem C8_removeValue_at_default_witness:
  "field (projr (CronBuilder None)) ''month'' = Some [Str ''*''] \<and>
   removeValue ''month'' ''3'' (projr (CronBuilder None))
     = (Inr (Some (noop_message ''month'')), projr (CronBuilder None)) \<and>
   get ''month'' (projr (CronBuilder None)) = Inr ''*''"
proof -
  have f: "field (projr (CronBuilder None)) ''month'' = Some [Str ''*'']" by code_simp
  from C8_removeValue_at_default [OF f] f show ?thesis by simp
qed

text \<open>
  C9. A builder constructed with no initial expression has all five fields equal to
  \<open>["*"]\<close>, and \<open>build()\<close> on it returns \<open>"* * * * *"\<close>.
\<close>

theorem C9_default_construction:
  "\<exists>b. CronBuilder None = Inr b \<and>
       list_all (\<lambda>m. field b m = Some [Str ''*'']) MeasureOfTimeValues \<and>
       build b = Inr ''* * * * *''"
  by (simp add: CronBuilder_def build_def field_def module_store_def DEFAULT_INTERVAL_def
      join_def deref_def MeasureOfTimeValues_def MeasureOfTimeMap_def)

text \<open>
  C10. For every recognised field, \<open>validateValue(f, "")\<close> succeeds: the empty token has no
  forbidden character and \<open>parseInt\<close> gives \<open>NaN\<close> for it, so neither bound rejects it. An
  empty part in a comma list passes in the same way: a list with an empty part between two
  commas is validated exactly as the list without it (so \<open>"5,,7"\<close> passes wherever
  \<open>"5,7"\<close> does).
\<close>

theorem C10_empty_token_passes:
  "f \<in> set MeasureOfTimeValues \<Longrightarrow>
   \<not> validChars_test '''' \<and> parseInt '''' = None \<and>
   validateValue f '''' = Inr () \<and> validateValue f (a @ '',,'' @ b) = validateValue f (a @ '','' @ b)"
  using known_field [of f] validateValue_empty validateValue_empty_part parseInt_empty
  by (auto simp: validChars_test_def)

theorem C10_empty_token_passes_witness:
  "''minute'' \<in> set MeasureOfTimeValues \<and> validateValue ''minute'' '''' = Inr () \<and>
   validateValue ''minute'' ''5,,7'' = Inr ()"
proof -
  have f: "''minute'' \<in> set MeasureOfTimeValues"
    by (simp add: MeasureOfTimeValues_def MeasureOfTimeMap_def)
  have v: "validateValue ''minute'' ''5,7'' = Inr ()" by code_simp
  from C10_empty_token_passes [OF f, of "''5''" "''7''"] f v show ?thesis by simp
qed

end
